theory Spec2Isabelle
  imports Main "HOL-Library.Sublist"
begin

section \<open>The compact blueprint parser (\<open>src/blueprints/parser.py\<close>)\<close>

text \<open>
  A shallow embedding of \<open>CompactBlueprintParser\<close>.  Python strings are modelled as
  \<^typ>\<open>string\<close>; a \<^typ>\<open>char\<close> stands for the code point of the same number, so the
  model covers texts whose code points are below 256.  Characters are classified the
  way Python classifies these code points (\<open>str.isspace\<close>, \<open>str.isupper\<close>,
  \<open>str.islower\<close>, \<open>str.lower\<close>, and the classes \<open>\s\<close> and \<open>\w\<close> of \<open>re\<close>).
  Exceptions are values of the type \<open>error\<close>.
\<close>

subsection \<open>Characters\<close>

definition code :: "char \<Rightarrow> nat" where
  "code c = of_char c"

definition between :: "nat \<Rightarrow> char \<Rightarrow> nat \<Rightarrow> bool" where
  "between lo c hi = (lo \<le> code c \<and> code c \<le> hi)"

definition newline :: char where
  "newline = CHR 0x0A"

text \<open>\<open>str.isspace\<close>, the characters removed by \<open>str.strip()\<close>, and \<open>\s\<close>.\<close>

definition isspace :: "char \<Rightarrow> bool" where
  "isspace c = (between 9 c 13 \<or> between 28 c 32 \<or> code c = 133 \<or> code c = 160)"

text \<open>\<open>str.isupper\<close> and \<open>str.islower\<close> of one character.\<close>

definition isupper_char :: "char \<Rightarrow> bool" where
  "isupper_char c = (between 65 c 90 \<or> between 192 c 214 \<or> between 216 c 222)"

definition islower_char :: "char \<Rightarrow> bool" where
  "islower_char c = (between 97 c 122 \<or> code c = 170 \<or> code c = 181 \<or> code c = 186
     \<or> between 223 c 246 \<or> between 248 c 255)"

text \<open>\<open>str.lower\<close> of one character: the upper-case letters move up by 32.\<close>

definition lower_char :: "char \<Rightarrow> char" where
  "lower_char c = (if isupper_char c then char_of (code c + 32) else c)"

text \<open>The class \<open>\w\<close>: alphanumeric characters and the underscore.\<close>

definition word_char :: "char \<Rightarrow> bool" where
  "word_char c = (between 48 c 57 \<or> between 65 c 90 \<or> code c = 95 \<or> between 97 c 122
     \<or> code c = 170 \<or> between 178 c 179 \<or> code c = 181 \<or> between 185 c 186
     \<or> between 188 c 190 \<or> between 192 c 214 \<or> between 216 c 246 \<or> between 248 c 255)"

text \<open>The classes \<open>[A-Z]\<close>, \<open>[A-Z0-9_]\<close>, \<open>[^=]\<close>, \<open>[^)]\<close> and \<open>.\<close> of the patterns.\<close>

definition cls_AZ :: "char \<Rightarrow> bool" where
  "cls_AZ c = between 65 c 90"

definition cls_AZ09u :: "char \<Rightarrow> bool" where
  "cls_AZ09u c = (between 65 c 90 \<or> between 48 c 57 \<or> c = CHR ''_'')"

definition cls_not_eq :: "char \<Rightarrow> bool" where
  "cls_not_eq c = (c \<noteq> CHR ''='')"

definition cls_not_rparen :: "char \<Rightarrow> bool" where
  "cls_not_rparen c = (c \<noteq> CHR '')'')"

definition cls_dot :: "char \<Rightarrow> bool" where
  "cls_dot c = (c \<noteq> newline)"

subsection \<open>String methods\<close>

text \<open>\<open>s.strip()\<close> and \<open>s.strip(chars)\<close>.\<close>

definition strip_with :: "(char \<Rightarrow> bool) \<Rightarrow> string \<Rightarrow> string" where
  "strip_with P s = rev (dropWhile P (rev (dropWhile P s)))"

definition strip :: "string \<Rightarrow> string" where
  "strip s = strip_with isspace s"

definition strip_chars :: "string \<Rightarrow> string \<Rightarrow> string" where
  "strip_chars chars s = strip_with (\<lambda>c. c \<in> set chars) s"

text \<open>\<open>s.startswith(p)\<close>.\<close>

definition startswith :: "string \<Rightarrow> string \<Rightarrow> bool" where
  "startswith s p = prefix p s"

text \<open>\<open>s.split(sep)\<close> for a separator of one character: one more piece than there
  are separators, so never an empty list.\<close>

fun split_acc :: "char \<Rightarrow> string \<Rightarrow> string \<Rightarrow> string list" where
  "split_acc sep cur [] = [rev cur]"
| "split_acc sep cur (c # s) =
     (if c = sep then rev cur # split_acc sep [] s else split_acc sep (c # cur) s)"

definition split :: "string \<Rightarrow> char \<Rightarrow> string list" where
  "split s sep = split_acc sep [] s"

text \<open>\<open>s.split(sep, 1)\<close>: cut at the first separator only.\<close>

definition split1 :: "string \<Rightarrow> char \<Rightarrow> string list" where
  "split1 s sep =
     (if sep \<in> set s then [takeWhile (\<lambda>c. c \<noteq> sep) s, drop 1 (dropWhile (\<lambda>c. c \<noteq> sep) s)]
      else [s])"

text \<open>\<open>p in s\<close> for strings, \<open>s.lower()\<close>, \<open>s.isupper()\<close> and \<open>s.islower()\<close> (no cased
  character of the other case, and at least one of this case), \<open>s.index(c)\<close> (used only
  where \<open>c in s\<close> holds) and the slice \<open>s[a:b]\<close> with \<open>0 \<le> a\<close>, \<open>0 \<le> b\<close>.\<close>

fun contains :: "string \<Rightarrow> string \<Rightarrow> bool" where
  "contains [] p = (p = [])"
| "contains (c # s) p = (prefix p (c # s) \<or> contains s p)"

definition lower :: "string \<Rightarrow> string" where
  "lower s = map lower_char s"

definition isupper :: "string \<Rightarrow> bool" where
  "isupper s = (list_all (\<lambda>c. \<not> islower_char c) s \<and> list_ex isupper_char s)"

definition islower :: "string \<Rightarrow> bool" where
  "islower s = (list_all (\<lambda>c. \<not> isupper_char c) s \<and> list_ex islower_char s)"

definition index :: "string \<Rightarrow> char \<Rightarrow> nat" where
  "index s c = length (takeWhile (\<lambda>x. x \<noteq> c) s)"

definition slice :: "string \<Rightarrow> nat \<Rightarrow> nat \<Rightarrow> string" where
  "slice s a b = take (b - a) (drop a s)"

subsection \<open>Regular expressions\<close>

text \<open>
  The patterns of the parser use literals, character classes, greedy and lazy
  repetition of a class, the optional group, capturing groups and the anchors.  The
  matcher is the backtracking matcher of \<open>re.match\<close>: it starts at position 0, tries
  the alternatives of every repetition and option in priority order (greedy: longest
  first; lazy: shortest first; option: present first) and returns the captures of the
  first way in which the whole pattern matches.
\<close>

datatype regex =
    Bol
  | Eol
  | Lit string
  | One "char \<Rightarrow> bool"
  | Star "char \<Rightarrow> bool"
  | Plus "char \<Rightarrow> bool"
  | LazyStar "char \<Rightarrow> bool"
  | LazyPlus "char \<Rightarrow> bool"
  | Opt regex
  | Group nat regex
  | Seq regex regex

type_synonym captures = "nat \<Rightarrow> string option"

fun greedy :: "(char \<Rightarrow> bool) \<Rightarrow> nat \<Rightarrow> string \<Rightarrow> (nat \<Rightarrow> string \<Rightarrow> captures option)
    \<Rightarrow> captures option" where
  "greedy P pos [] k = k pos []"
| "greedy P pos (c # s) k =
     (if P c then (case greedy P (Suc pos) s k of Some r \<Rightarrow> Some r | None \<Rightarrow> k pos (c # s))
      else k pos (c # s))"

fun lazy :: "(char \<Rightarrow> bool) \<Rightarrow> nat \<Rightarrow> string \<Rightarrow> (nat \<Rightarrow> string \<Rightarrow> captures option)
    \<Rightarrow> captures option" where
  "lazy P pos [] k = k pos []"
| "lazy P pos (c # s) k =
     (case k pos (c # s) of Some r \<Rightarrow> Some r
      | None \<Rightarrow> if P c then lazy P (Suc pos) s k else None)"

fun rmatch :: "regex \<Rightarrow> nat \<Rightarrow> string \<Rightarrow> captures
    \<Rightarrow> (nat \<Rightarrow> string \<Rightarrow> captures \<Rightarrow> captures option) \<Rightarrow> captures option" where
  "rmatch Bol pos s cs k = (if pos = 0 then k pos s cs else None)"
| "rmatch Eol pos s cs k = (if s = [] \<or> s = [newline] then k pos s cs else None)"
| "rmatch (Lit p) pos s cs k =
     (if prefix p s then k (pos + length p) (drop (length p) s) cs else None)"
| "rmatch (One P) pos s cs k =
     (case s of [] \<Rightarrow> None | c # s' \<Rightarrow> if P c then k (Suc pos) s' cs else None)"
| "rmatch (Star P) pos s cs k = greedy P pos s (\<lambda>pos' s'. k pos' s' cs)"
| "rmatch (Plus P) pos s cs k =
     (case s of [] \<Rightarrow> None
      | c # s' \<Rightarrow> if P c then greedy P (Suc pos) s' (\<lambda>pos' s'. k pos' s' cs) else None)"
| "rmatch (LazyStar P) pos s cs k = lazy P pos s (\<lambda>pos' s'. k pos' s' cs)"
| "rmatch (LazyPlus P) pos s cs k =
     (case s of [] \<Rightarrow> None
      | c # s' \<Rightarrow> if P c then lazy P (Suc pos) s' (\<lambda>pos' s'. k pos' s' cs) else None)"
| "rmatch (Opt r) pos s cs k =
     (case rmatch r pos s cs k of Some res \<Rightarrow> Some res | None \<Rightarrow> k pos s cs)"
| "rmatch (Group n r) pos s cs k =
     rmatch r pos s cs (\<lambda>pos' s' cs'. k pos' s' (cs'(n \<mapsto> take (pos' - pos) s)))"
| "rmatch (Seq a b) pos s cs k = rmatch a pos s cs (\<lambda>pos' s' cs'. rmatch b pos' s' cs' k)"

fun seq :: "regex list \<Rightarrow> regex" where
  "seq [] = Lit []"
| "seq [r] = r"
| "seq (r # rs) = Seq r (seq rs)"

text \<open>\<open>re.match(pattern, s)\<close>: the captures of the match, or \<open>None\<close>.\<close>

definition re_match :: "regex \<Rightarrow> string \<Rightarrow> captures option" where
  "re_match r s = rmatch r 0 s Map.empty (\<lambda>pos s' cs. Some cs)"


text \<open>The patterns of the parser, in the order in which the source uses them.\<close>

definition re_constant_head :: regex where
  \<comment> \<open>\<^verbatim>\<open>^[A-Z][A-Z0-9_]*:\<close>\<close>
  "re_constant_head = seq [Bol, One cls_AZ, Star cls_AZ09u, Lit '':'']"

definition re_constant :: regex where
  \<comment> \<open>\<^verbatim>\<open>^([A-Z][A-Z0-9_]*):\s*([^=]+)(?:\s*=\s*(.+))?$\<close>\<close>
  "re_constant = seq [Bol, Group 1 (Seq (One cls_AZ) (Star cls_AZ09u)), Lit '':'',
     Star isspace, Group 2 (Plus cls_not_eq),
     Opt (seq [Star isspace, Lit ''='', Star isspace, Group 3 (Plus cls_dot)]), Eol]"

definition re_class :: regex where
  \<comment> \<open>\<^verbatim>\<open>^(\w+)(?:\(([^)]+)\))?:?\s*$\<close>\<close>
  "re_class = seq [Bol, Group 1 (Plus word_char),
     Opt (seq [Lit ''('', Group 2 (Plus cls_not_rparen), Lit '')'']),
     Opt (Lit '':''), Star isspace, Eol]"

definition re_function :: regex where
  \<comment> \<open>\<^verbatim>\<open>^(?:async\s+)?def\s+(\w+)\((.*?)\)(?:\s*->\s*(.+?))?:?\s*$\<close>\<close>
  "re_function = seq [Bol, Opt (seq [Lit ''async'', Plus isspace]), Lit ''def'', Plus isspace,
     Group 1 (Plus word_char), Lit ''('', Group 2 (LazyStar cls_dot), Lit '')'',
     Opt (seq [Star isspace, Lit ''->'', Star isspace, Group 3 (LazyPlus cls_dot)]),
     Opt (Lit '':''), Star isspace, Eol]"

definition re_method :: regex where
  \<comment> \<open>\<^verbatim>\<open>^(?:async\s+)?(\w+)\((.*?)\)(?:\s*->\s*(.+))?$\<close>\<close>
  "re_method = seq [Bol, Opt (seq [Lit ''async'', Plus isspace]),
     Group 1 (Plus word_char), Lit ''('', Group 2 (LazyStar cls_dot), Lit '')'',
     Opt (seq [Star isspace, Lit ''->'', Star isspace, Group 3 (Plus cls_dot)]), Eol]"

definition re_function_head :: regex where
  \<comment> \<open>\<^verbatim>\<open>^(?:async\s+)?def\s+\w+\(\<close>\<close>
  "re_function_head = seq [Bol, Opt (seq [Lit ''async'', Plus isspace]), Lit ''def'',
     Plus isspace, Plus word_char, Lit ''('']"

definition re_class_shape :: regex where
  \<comment> \<open>\<^verbatim>\<open>^\w+(?:\([^)]*\))?:?\s*$\<close>\<close>
  "re_class_shape = seq [Bol, Plus word_char,
     Opt (seq [Lit ''('', Star cls_not_rparen, Lit '')'']),
     Opt (Lit '':''), Star isspace, Eol]"

subsection \<open>The data model\<close>

record py_method =
  m_name :: string
  params :: string
  return_type :: "string option"
  comment :: "string option"
  decorators :: "string list"
  is_async :: bool

record component =
  ctype :: string
  name :: string
  base_class :: "string option"
  methods :: "py_method list"
  properties :: "string \<rightharpoonup> string"
  cvalue :: "string option"
  docstring :: "string option"

record blueprint_reference =
  module_path :: string
  items :: "string list"

record blueprint =
  "module_name" :: string
  description :: string
  blueprint_refs :: "blueprint_reference list"
  components :: "component list"
  "notes" :: "string list"
  raw_content :: string
  file_path :: "string option"

datatype error = ValueError string | IndexError

text \<open>The constructors with the defaults of the dataclasses.\<close>

definition Method :: "string \<Rightarrow> string \<Rightarrow> string option \<Rightarrow> string option \<Rightarrow> string list \<Rightarrow> bool
    \<Rightarrow> py_method" where
  "Method n ps rt cm ds a =
     \<lparr>m_name = n, params = ps, return_type = rt, comment = cm, decorators = ds, is_async = a\<rparr>"

definition Component :: "string \<Rightarrow> string \<Rightarrow> component" where
  "Component t n = \<lparr>ctype = t, name = n, base_class = None, methods = [],
     properties = Map.empty, cvalue = None, docstring = None\<rparr>"

definition BlueprintReference :: "string \<Rightarrow> string list \<Rightarrow> blueprint_reference" where
  "BlueprintReference p xs = \<lparr>module_path = p, items = xs\<rparr>"

text \<open>\<open>x.strip() if x else None\<close> for an optional group.\<close>

definition strip_if :: "string option \<Rightarrow> string option" where
  "strip_if x = (case x of None \<Rightarrow> None | Some v \<Rightarrow> if v = [] then None else Some (strip v))"

subsection \<open>\<open>_parse_blueprint_refs\<close>\<close>

fun refs_loop :: "string list \<Rightarrow> blueprint_reference list \<Rightarrow> blueprint_reference list" where
  "refs_loop [] refs = refs"
| "refs_loop (d # ds) refs =
     (let dep = strip d in
      if dep = [] then refs_loop ds refs
      else if startswith dep ''.'' \<or> startswith dep ''@'' then
        if CHR ''['' \<in> set dep \<and> CHR '']'' \<in> set dep then
          let package = strip (take (index dep (CHR ''['')) dep);
              items_str = slice dep (index dep (CHR ''['') + 1) (index dep (CHR '']''));
              item_list = map strip (split items_str (CHR '',''));
              package = (if startswith package ''@'' then drop 1 package else package)
          in refs_loop ds (refs @ [BlueprintReference package item_list])
        else
          let module = (if startswith dep ''@'' then drop 1 dep else dep)
          in refs_loop ds (refs @ [BlueprintReference module []])
      else refs_loop ds refs)"

definition parse_blueprint_refs :: "string \<Rightarrow> blueprint_reference list" where
  "parse_blueprint_refs deps_str = refs_loop (split deps_str (CHR '';'')) []"

subsection \<open>\<open>_parse_method\<close>\<close>

definition parse_method :: "string \<Rightarrow> py_method option" where
  "parse_method line0 =
     (let (line, cmt) =
            (if CHR ''#'' \<in> set line0
             then (let parts = split1 line0 (CHR ''#'') in (strip (parts ! 0), Some (strip (parts ! 1))))
             else (line0, None))
      in if CHR '':'' \<in> set line \<and> CHR ''('' \<notin> set line then
           (let parts = split1 line (CHR '':'')
            in Some (Method (strip (parts ! 0)) [] (Some (strip (parts ! 1))) cmt [] False))
         else
           (case re_match re_method line of
              Some m \<Rightarrow> Some (Method (the (m 1)) (the (m 2)) (strip_if (m 3)) cmt []
                                (startswith (strip line) ''async ''))
            | None \<Rightarrow> None))"


subsection \<open>\<open>_parse_component\<close>\<close>

text \<open>
  The classifier tries four rules in order; each either returns a component or falls
  through to the next.  The first rule reads \<open>name[0]\<close>, which raises \<open>IndexError\<close> when
  \<open>name\<close> is empty.
\<close>

definition assignment_rule :: "string \<Rightarrow> error + component option" where
  "assignment_rule line =
     (if CHR ''='' \<in> set line \<and> \<not> startswith line ''-'' then
        let parts = split1 line (CHR ''='') in
        if length parts = 2 then
          let nm = strip (parts ! 0); v = strip (parts ! 1) in
          if CHR '':'' \<notin> set nm then
            (case nm of
               [] \<Rightarrow> Inl IndexError
             | c # _ \<Rightarrow>
                 if (isupper [c] \<and> list_ex (\<lambda>c. islower [c]) nm) \<or> contains (lower nm) ''type''
                 then Inr (Some ((Component ''type_alias'' nm)\<lparr>cvalue := Some v\<rparr>))
                 else if isupper nm \<and> CHR ''_'' \<in> set nm
                 then Inr (Some ((Component ''constant'' nm)
                        \<lparr>properties := [''type'' \<mapsto> ''auto''], cvalue := Some v\<rparr>))
                 else Inr None)
          else Inr None
        else Inr None
      else Inr None)"

definition constant_rule :: "string \<Rightarrow> component option" where
  "constant_rule line =
     (if re_match re_constant_head line \<noteq> None then
        (case re_match re_constant line of
           Some m \<Rightarrow> Some ((Component ''constant'' (the (m 1)))
                      \<lparr>properties := [''type'' \<mapsto> strip (the (m 2))], cvalue := strip_if (m 3)\<rparr>)
         | None \<Rightarrow> None)
      else None)"

text \<open>The loop over the class members; it returns the index at which it stopped and
  the methods.\<close>

function class_members :: "string list \<Rightarrow> nat \<Rightarrow> string list \<Rightarrow> py_method list
    \<Rightarrow> nat \<times> py_method list" where
  "class_members lines i decs ms =
     (if i < length lines \<and> (startswith (strip (lines ! i)) ''-''
           \<or> startswith (strip (lines ! i)) ''@'' \<or> strip (lines ! i) = [])
      then
        let member_line = strip (lines ! i) in
        if startswith member_line ''-'' then
          (case parse_method (strip (drop 1 member_line)) of
             Some m \<Rightarrow> class_members lines (i + 1) []
                        (ms @ [m\<lparr>decorators := decorators m @ decs\<rparr>])
           | None \<Rightarrow> class_members lines (i + 1) decs ms)
        else if startswith member_line ''@'' then
          class_members lines (i + 1) (decs @ [member_line]) ms
        else class_members lines (i + 1) decs ms
      else (i, ms))"
  by pat_completeness auto
termination
  by (relation "measure (\<lambda>(lines, i, decs, ms). length lines - i)") auto

declare class_members.simps [simp del]

definition class_rule :: "string list \<Rightarrow> nat \<Rightarrow> string \<Rightarrow> component option" where
  "class_rule lines start_idx line =
     (case re_match re_class line of
        Some m \<Rightarrow>
          if start_idx + 1 < length lines \<and> startswith (strip (lines ! (start_idx + 1))) ''-''
          then Some ((Component ''class'' (the (m 1)))
                 \<lparr>base_class := m 2,
                  methods := snd (class_members lines (start_idx + 1) [] [])\<rparr>)
          else None
      | None \<Rightarrow> None)"

text \<open>The decorators above a function: \<open>n\<close> is \<open>check_idx + 1\<close>, so the loop condition
  \<open>check_idx >= 0\<close> is \<open>n \<noteq> 0\<close>.\<close>

fun preceding_decorators :: "string list \<Rightarrow> nat \<Rightarrow> string list \<Rightarrow> string list" where
  "preceding_decorators lines 0 decs = decs"
| "preceding_decorators lines (Suc check_idx) decs =
     (if startswith (strip (lines ! check_idx)) ''@''
      then preceding_decorators lines check_idx (strip (lines ! check_idx) # decs)
      else decs)"

definition function_rule :: "string list \<Rightarrow> nat \<Rightarrow> string \<Rightarrow> component option" where
  "function_rule lines start_idx line =
     (case re_match re_function line of
        Some m \<Rightarrow>
          let decs = preceding_decorators lines start_idx [];
              doc = (if start_idx + 1 < length lines
                       \<and> startswith (strip (lines ! (start_idx + 1))) ''\"\"\"''
                     then Some (strip_chars ''\"\"\"'' (strip (lines ! (start_idx + 1))))
                     else None);
              meth = Method (the (m 1)) (the (m 2)) (strip_if (m 3)) None decs
                       (startswith (strip line) ''async '')
          in Some ((Component ''function'' (the (m 1)))\<lparr>methods := [meth], docstring := doc\<rparr>)
      | None \<Rightarrow> None)"

definition parse_component :: "string list \<Rightarrow> nat \<Rightarrow> error + component option" where
  "parse_component lines start_idx =
     (if start_idx < length lines then
        let line = strip (lines ! start_idx) in
        case assignment_rule line of
          Inl e \<Rightarrow> Inl e
        | Inr (Some c) \<Rightarrow> Inr (Some c)
        | Inr None \<Rightarrow>
            (case constant_rule line of
               Some c \<Rightarrow> Inr (Some c)
             | None \<Rightarrow>
                 (case class_rule lines start_idx line of
                    Some c \<Rightarrow> Inr (Some c)
                  | None \<Rightarrow> Inr (function_rule lines start_idx line)))
      else Inl IndexError)"

subsection \<open>\<open>_find_component_end\<close>\<close>

definition looks_like_new_component :: "string \<Rightarrow> bool" where
  "looks_like_new_component line =
     (line \<noteq> [] \<and> \<not> startswith line ''-'' \<and> \<not> startswith line ''@'' \<and>
      (re_match re_function_head line \<noteq> None \<or> re_match re_class_shape line \<noteq> None
       \<or> re_match re_constant_head line \<noteq> None
       \<or> (CHR ''='' \<in> set line \<and> \<not> startswith line ''-'')))"

function find_end_loop :: "string list \<Rightarrow> nat \<Rightarrow> int" where
  "find_end_loop lines i =
     (if i < length lines then
        let line = strip (lines ! i) in
        if line = [] \<or> startswith line ''\"\"\"'' then find_end_loop lines (i + 1)
        else if startswith line ''deps:'' \<or> startswith line ''notes:'' \<or> startswith line ''#''
        then int i - 1
        else if looks_like_new_component line then int i - 1
        else find_end_loop lines (i + 1)
      else int (length lines) - 1)"
  by pat_completeness auto
termination
  by (relation "measure (\<lambda>(lines, i). length lines - i)") auto

declare find_end_loop.simps [simp del]

definition find_component_end :: "string list \<Rightarrow> nat \<Rightarrow> int" where
  "find_component_end lines start_idx = find_end_loop lines (start_idx + 1)"


subsection \<open>\<open>parse_content\<close>\<close>

text \<open>One pass through the body of the \<open>while\<close> loop at cursor \<open>i\<close>: the new cursor and
  the updated blueprint, or the exception raised by the classifier.\<close>

definition driver_step :: "string list \<Rightarrow> nat \<Rightarrow> blueprint \<Rightarrow> error + (nat \<times> blueprint)" where
  "driver_step lines i bp =
     (let line = strip (lines ! i) in
      if startswith line ''deps:'' then
        Inr (i + 1, bp\<lparr>blueprint_refs := parse_blueprint_refs (strip (drop 5 line))\<rparr>)
      else if startswith line ''notes:'' then
        Inr (i + 1, bp\<lparr>notes := map strip (split (strip (drop 6 line)) (CHR '',''))\<rparr>)
      else if line \<noteq> [] \<and> \<not> startswith line ''#'' then
        (case parse_component lines i of
           Inl e \<Rightarrow> Inl e
         | Inr (Some c) \<Rightarrow>
             Inr (nat (find_component_end lines i + 1), bp\<lparr>components := components bp @ [c]\<rparr>)
         | Inr None \<Rightarrow> Inr (i + 1, bp))
      else Inr (i + 1, bp))"

lemma find_end_loop_lower: "i \<le> length lines \<Longrightarrow> int i - 1 \<le> find_end_loop lines i"
proof (induction lines i rule: find_end_loop.induct)
  case (1 lines i)
  show ?case
  proof (cases "i < length lines")
    case True
    with "1.IH" show ?thesis
      by (subst find_end_loop.simps) (auto simp: Let_def)
  next
    case False
    with "1.prems" show ?thesis
      by (subst find_end_loop.simps) simp
  qed
qed

lemma driver_step_advances:
  assumes "driver_step lines i bp = Inr (i', bp')" and "i < length lines"
  shows "i < i'"
proof -
  have "int (i + 1) - 1 \<le> find_component_end lines i"
    unfolding find_component_end_def using assms(2) by (intro find_end_loop_lower) simp
  then have "i < nat (find_component_end lines i + 1)" by simp
  with assms(1) show ?thesis
    by (auto simp: driver_step_def Let_def split: if_splits sum.splits option.splits)
qed

function parse_loop :: "string list \<Rightarrow> nat \<Rightarrow> blueprint \<Rightarrow> error + blueprint" where
  "parse_loop lines i bp =
     (if i < length lines then
        (case driver_step lines i bp of
           Inl e \<Rightarrow> Inl e
         | Inr (i', bp') \<Rightarrow> parse_loop lines i' bp')
      else Inr bp)"
  by pat_completeness auto
termination
proof (relation "measure (\<lambda>(lines, i, bp). length lines - i)", goal_cases)
  case 1
  show ?case by simp
next
  case (2 lines i bp x2 i' bp')
  then have "driver_step lines i bp = Inr (i', bp')" by simp
  then have "i < i'" using 2(1) by (rule driver_step_advances)
  with 2(1) show ?case unfolding 2(3) [symmetric] by simp
qed

declare parse_loop.simps [simp del]

definition parse_content :: "string \<Rightarrow> error + blueprint" where
  "parse_content content =
     (let lines = split (strip content) newline in
      if lines = [] \<or> \<not> startswith (lines ! 0) ''#'' then
        Inl (ValueError ''Blueprint must start with # module.name'')
      else
        let mname = strip (strip_chars ''#'' (lines ! 0));
            descr = (if length lines > 1 then strip (lines ! 1) else [])
        in parse_loop lines 2
             \<lparr>module_name = mname, description = descr, blueprint_refs = [], components = [],
              notes = [], raw_content = content, file_path = None\<rparr>)"


section \<open>Notions of the specification\<close>

subsection \<open>The dependency line, entry by entry\<close>

text \<open>
  The specification describes the dependency-line parser entry by entry: which entries
  give a Dependency, and what its module path and items are.  \<open>without_at\<close> strips a
  leading \<open>@\<close>.  The bracket body of an entry is the text after its first \<open>[\<close>, up to the
  next \<open>]\<close>.  \<open>stated_items\<close> are the items as the specification states them: the
  trimmed pieces of the bracket body between commas.  \<open>amended_items\<close> differ for an entry
  in which a \<open>]\<close> comes before the first \<open>[\<close>: there they are the single empty string.
  The description of an entry and of a line takes the items as a parameter, so that the
  two readings differ in nothing else.
\<close>

definition without_at :: "string \<Rightarrow> string" where
  "without_at s = (case s of [] \<Rightarrow> [] | c # t \<Rightarrow> if c = CHR ''@'' then t else s)"

definition bracket_body :: "string \<Rightarrow> string" where
  "bracket_body e =
     takeWhile (\<lambda>x. x \<noteq> CHR '']'') (drop 1 (dropWhile (\<lambda>x. x \<noteq> CHR ''['') e))"

definition stated_items :: "string \<Rightarrow> string list" where
  "stated_items e = map strip (split (bracket_body e) (CHR '',''))"

definition amended_items :: "string \<Rightarrow> string list" where
  "amended_items e =
     (if CHR '']'' \<in> set (takeWhile (\<lambda>x. x \<noteq> CHR ''['') e) then [''''] else stated_items e)"

definition dependency_of_entry :: "(string \<Rightarrow> string list) \<Rightarrow> string
    \<Rightarrow> blueprint_reference option" where
  "dependency_of_entry items_of e =
     (if e = [] then None
      else if startswith e ''.'' \<or> startswith e ''@'' then
        (if CHR ''['' \<in> set e \<and> CHR '']'' \<in> set e
         then Some \<lparr>module_path = without_at (strip (takeWhile (\<lambda>x. x \<noteq> CHR ''['') e)),
                    items = items_of e\<rparr>
         else Some \<lparr>module_path = without_at e, items = []\<rparr>)
      else None)"

definition dependencies_of_line :: "(string \<Rightarrow> string list) \<Rightarrow> string
    \<Rightarrow> blueprint_reference list" where
  "dependencies_of_line items_of s =
     List.map_filter (dependency_of_entry items_of) (map strip (split s (CHR '';'')))"

subsection \<open>The lines with dependencies\<close>

text \<open>The \<open>deps:\<close> lines that the driver can reach: those from index 2 on.\<close>

definition deps_lines :: "string list \<Rightarrow> string list" where
  "deps_lines lines = filter (\<lambda>l. startswith (strip l) ''deps:'') (drop 2 lines)"

subsection \<open>The cursor of the driver\<close>

text \<open>\<open>cursor_moves lines s t\<close>: from the cursor and blueprint \<open>s\<close> the \<open>while\<close> loop
  reaches the cursor and blueprint \<open>t\<close> after some number of passes.  A body line of a
  class is one that starts with \<open>-\<close> or \<open>@\<close> or is blank.\<close>

inductive cursor_moves :: "string list \<Rightarrow> nat \<times> blueprint \<Rightarrow> nat \<times> blueprint \<Rightarrow> bool"
  for lines :: "string list" where
  stay: "cursor_moves lines s s"
| step: "cursor_moves lines s (i, bp) \<Longrightarrow> i < length lines \<Longrightarrow> driver_step lines i bp = Inr s'
    \<Longrightarrow> cursor_moves lines s s'"

definition body_line :: "string \<Rightarrow> bool" where
  "body_line l = (startswith (strip l) ''-'' \<or> startswith (strip l) ''@'' \<or> strip l = [])"

subsection \<open>Parts of the patterns\<close>


fun certain_groups :: "regex \<Rightarrow> nat set" where
  "certain_groups (Group n r) = insert n (certain_groups r)"
| "certain_groups (Seq a b) = certain_groups a \<union> certain_groups b"
| "certain_groups r = {}"






section \<open>Properties\<close>

subsection \<open>Evaluation\<close>

lemmas char_defs = code_def between_def isspace_def cls_AZ_def cls_AZ09u_def cls_not_eq_def
  cls_not_rparen_def cls_dot_def newline_def word_char_def isupper_char_def islower_char_def
  lower_char_def

lemmas str_defs = strip_with_def strip_def strip_chars_def startswith_def split_def split1_def
  lower_def isupper_def islower_def index_def slice_def

lemmas re_defs = re_match_def re_constant_head_def re_constant_def re_class_def
  re_function_def re_method_def re_function_head_def re_class_shape_def

lemmas parser_defs = parse_content_def parse_loop.simps driver_step_def parse_component_def
  assignment_rule_def constant_rule_def class_rule_def function_rule_def class_members.simps
  find_component_end_def find_end_loop.simps looks_like_new_component_def parse_method_def
  parse_blueprint_refs_def Method_def Component_def BlueprintReference_def strip_if_def Let_def

subsection \<open>Unrecognised lines\<close>

text \<open>
  C1.  The claim: whenever the first line begins with \<open>#\<close>, \<open>parse_content\<close> returns a
  Document and never raises; a line such as \<open>= 5\<close>, whose text before the first \<open>=\<close> is
  empty, is silently skipped.  The code does not do this: on the three lines \<open>#m\<close>,
  \<open>d\<close>, \<open>= 5\<close> the assignment rule of the classifier reads \<open>name[0]\<close> of the empty
  name, and the parse ends with \<open>IndexError\<close>.
\<close>

theorem parse_content_empty_name_raises:
  "parse_content ''#m\<newline>d\<newline>= 5'' = Inl IndexError"
  by (simp add: parser_defs str_defs char_defs)

text \<open>A line of prose, which has none of the recognised shapes, is skipped.\<close>

lemma prose_line_is_skipped:
  "\<exists>bp. parse_content ''#m\<newline>d\<newline>to be decided later'' = Inr bp \<and> components bp = []"
  by (simp add: parser_defs str_defs re_defs char_defs)


subsection \<open>The dependency line\<close>

lemma split_acc_not_Nil: "split_acc sep cur s \<noteq> []"
  by (induction s arbitrary: cur) auto

lemma split_not_Nil: "split s sep \<noteq> []"
  by (simp add: split_def split_acc_not_Nil)

lemma split_acc_no_sep: "sep \<notin> set s \<Longrightarrow> split_acc sep cur s = [rev cur @ s]"
  by (induction s arbitrary: cur) auto

lemma split_no_sep: "sep \<notin> set s \<Longrightarrow> split s sep = [s]"
  by (simp add: split_def split_acc_no_sep)

lemma without_at_if: "without_at s = (if startswith s ''@'' then drop (Suc 0) s else s)"
  by (cases s) (auto simp: startswith_def without_at_def)

lemma takeWhile_skip:
  "c \<notin> set xs \<Longrightarrow> takeWhile (\<lambda>x. x \<noteq> c) (xs @ ys) = xs @ takeWhile (\<lambda>x. x \<noteq> c) ys"
  by (induction xs) auto

lemma take_index: "take (index e c) e = takeWhile (\<lambda>x. x \<noteq> c) e"
  unfolding index_def by (rule takeWhile_eq_take [symmetric])

text \<open>The slice \<open>dep[dep.index('[')+1:dep.index(']')]\<close> of the source is the bracket
  body, unless a \<open>]\<close> comes before the first \<open>[\<close>: then it is empty.\<close>

lemma slice_bracket_body:
  assumes "CHR ''['' \<in> set e" and "CHR '']'' \<in> set e"
  shows "slice e (Suc (index e (CHR ''[''))) (index e (CHR '']'')) =
    (if CHR '']'' \<in> set (takeWhile (\<lambda>x. x \<noteq> CHR ''['') e) then [] else bracket_body e)"
proof (cases "CHR '']'' \<in> set (takeWhile (\<lambda>x. x \<noteq> CHR ''['') e)")
  case True
  then obtain a b where ab: "takeWhile (\<lambda>x. x \<noteq> CHR ''['') e = a @ CHR '']'' # b"
    and a: "CHR '']'' \<notin> set a"
    by (meson split_list_first)
  have e: "e = (a @ CHR '']'' # b) @ dropWhile (\<lambda>x. x \<noteq> CHR ''['') e"
    using takeWhile_dropWhile_id [of "\<lambda>x. x \<noteq> CHR ''[''" e] ab by simp
  have "takeWhile (\<lambda>x. x \<noteq> CHR '']'') e = a"
    by (subst e) (use a in \<open>simp add: takeWhile_skip\<close>)
  then have "index e (CHR '']'') = length a"
    by (simp add: index_def)
  moreover have "index e (CHR ''['') = length (a @ CHR '']'' # b)"
    unfolding index_def ab [symmetric] ..
  ultimately show ?thesis
    using True by (simp add: slice_def)
next
  case False
  define pre where "pre = takeWhile (\<lambda>x. x \<noteq> CHR ''['') e"
  define rest where "rest = dropWhile (\<lambda>x. x \<noteq> CHR ''['') e"
  have e: "e = pre @ rest"
    by (simp add: pre_def rest_def)
  have "rest \<noteq> []"
    using assms(1) by (simp add: rest_def)
  moreover have "hd rest = CHR ''[''"
    using assms(1) hd_dropWhile [of "\<lambda>x. x \<noteq> CHR ''[''" e] by (auto simp: rest_def)
  ultimately obtain after where rest: "rest = CHR ''['' # after"
    by (cases rest) auto
  have i: "index e (CHR ''['') = length pre"
    by (simp add: index_def pre_def)
  have np: "CHR '']'' \<notin> set pre"
    using False by (simp add: pre_def)
  have tw: "takeWhile (\<lambda>x. x \<noteq> CHR '']'') e =
      pre @ CHR ''['' # takeWhile (\<lambda>x. x \<noteq> CHR '']'') after"
    unfolding e rest using np by (simp add: takeWhile_skip)
  have j: "index e (CHR '']'') = length pre + 1 + length (takeWhile (\<lambda>x. x \<noteq> CHR '']'') after)"
    by (simp add: index_def tw)
  have "slice e (Suc (index e (CHR ''[''))) (index e (CHR '']'')) =
      takeWhile (\<lambda>x. x \<noteq> CHR '']'') after"
    unfolding i j slice_def by (simp add: e rest takeWhile_eq_take [symmetric])
  moreover have "bracket_body e = takeWhile (\<lambda>x. x \<noteq> CHR '']'') after"
    by (simp add: bracket_body_def rest_def [symmetric] rest)
  ultimately show ?thesis
    using False by simp
qed

lemma strip_Nil [simp]: "strip [] = []"
  by (simp add: strip_def strip_with_def)

lemma split_Nil [simp]: "split [] sep = [[]]"
  by (simp add: split_def)

lemma slice_items:
  assumes "CHR ''['' \<in> set e" and "CHR '']'' \<in> set e"
  shows "map strip (split (slice e (Suc (index e (CHR ''[''))) (index e (CHR '']''))) (CHR '',''))
    = amended_items e"
  by (simp add: slice_bracket_body [OF assms] amended_items_def stated_items_def)

text \<open>One turn of the \<open>for\<close> loop appends the Dependency of the trimmed entry, if it has
  one.\<close>

lemma refs_loop_step:
  "refs_loop (d # ds) acc =
     refs_loop ds (acc @ (case dependency_of_entry amended_items (strip d) of
        None \<Rightarrow> [] | Some r \<Rightarrow> [r]))"
  by (simp add: Let_def dependency_of_entry_def take_index slice_items without_at_if
      BlueprintReference_def)

lemma refs_loop_spec:
  "refs_loop ds acc = acc @ List.map_filter (dependency_of_entry amended_items) (map strip ds)"
  by (induction ds arbitrary: acc)
    (simp_all add: refs_loop_step map_filter_simps del: refs_loop.simps(2) split: option.split)

text \<open>
  C5.  As stated (the items of a qualifying entry with both \<open>[\<close> and \<open>]\<close> are always the
  trimmed pieces of its bracket body) the claim fails: the source cuts the entry from
  its first \<open>[\<close> to its first \<open>]\<close>, wherever that is, so for \<open>.a]b[c]\<close> the cut is empty and
  the items are the single empty string, not \<open>c\<close>.  What holds: for every text after
  \<open>deps:\<close>, the parser returns the Dependencies of the trimmed entries between the
  semicolons, in order: an empty entry and an entry that starts with neither \<open>.\<close> nor
  \<open>@\<close> give none; a qualifying entry with both \<open>[\<close> and \<open>]\<close> gives the trimmed text before
  the first \<open>[\<close>, without a leading \<open>@\<close>, as module path, and as items the trimmed pieces
  of the bracket body between commas, or the single empty string when a \<open>]\<close> comes
  before the first \<open>[\<close>; any other qualifying entry (also one with \<open>[\<close> and no \<open>]\<close>) gives
  the whole entry, without a leading \<open>@\<close>, as module path and no items.  Three lines are
  evaluated as well: the example of the specification, a line with blanks, an empty
  entry, an \<open>@\<close> entry and an entry with \<open>[\<close> alone, and the entry \<open>.a]b[c]\<close>.
\<close>

theorem parse_blueprint_refs_entries:
  "parse_blueprint_refs deps_str = dependencies_of_line amended_items deps_str
   \<and> parse_blueprint_refs ''.models[User, Post]; requests'' =
       [\<lparr>module_path = ''.models'', items = [''User'', ''Post'']\<rparr>]
   \<and> parse_blueprint_refs '' @pkg.mod [ A ,B ] ;; .x[y ; os'' =
       [\<lparr>module_path = ''pkg.mod'', items = [''A'', ''B'']\<rparr>,
        \<lparr>module_path = ''.x[y'', items = []\<rparr>]
   \<and> parse_blueprint_refs ''.a]b[c]'' = [\<lparr>module_path = ''.a]b'', items = ['''']\<rparr>]"
proof (intro conjI)
  show "parse_blueprint_refs deps_str = dependencies_of_line amended_items deps_str"
    by (simp add: parse_blueprint_refs_def dependencies_of_line_def refs_loop_spec)
  show "parse_blueprint_refs ''.models[User, Post]; requests'' =
      [\<lparr>module_path = ''.models'', items = [''User'', ''Post'']\<rparr>]"
    by (simp add: parser_defs str_defs char_defs)
  show "parse_blueprint_refs '' @pkg.mod [ A ,B ] ;; .x[y ; os'' =
      [\<lparr>module_path = ''pkg.mod'', items = [''A'', ''B'']\<rparr>,
       \<lparr>module_path = ''.x[y'', items = []\<rparr>]"
    by (simp add: parser_defs str_defs char_defs)
  show "parse_blueprint_refs ''.a]b[c]'' = [\<lparr>module_path = ''.a]b'', items = ['''']\<rparr>]"
    by (simp add: parser_defs str_defs char_defs)
qed

text \<open>The entry \<open>.a]b[c]\<close>: the parser gives the single empty string as items, and the
  items as stated are \<open>c\<close>.\<close>

theorem parse_blueprint_refs_entries_counterexample:
  "parse_blueprint_refs ''.a]b[c]'' = [\<lparr>module_path = ''.a]b'', items = ['''']\<rparr>]
   \<and> dependencies_of_line stated_items ''.a]b[c]'' =
       [\<lparr>module_path = ''.a]b'', items = [''c'']\<rparr>]"
  by (simp add: parser_defs dependencies_of_line_def dependency_of_entry_def stated_items_def
      bracket_body_def without_at_def map_filter_simps str_defs char_defs)

text \<open>On a line in which no entry has a \<open>]\<close> before its first \<open>[\<close>, the items are the
  stated ones.\<close>

lemma parse_blueprint_refs_stated:
  assumes "\<forall>e\<in>set (split deps_str (CHR '';'')).
      CHR '']'' \<notin> set (takeWhile (\<lambda>x. x \<noteq> CHR ''['') (strip e))"
  shows "parse_blueprint_refs deps_str = dependencies_of_line stated_items deps_str"
proof -
  have "List.map_filter (dependency_of_entry amended_items) (map strip ds)
      = List.map_filter (dependency_of_entry stated_items) (map strip ds)"
    if "\<forall>e\<in>set ds. CHR '']'' \<notin> set (takeWhile (\<lambda>x. x \<noteq> CHR ''['') (strip e))" for ds
    using that
    by (induction ds) (simp_all add: map_filter_simps dependency_of_entry_def amended_items_def)
  with assms show ?thesis
    by (simp add: parse_blueprint_refs_def dependencies_of_line_def refs_loop_spec)
qed

text \<open>Every Dependency of a line is the Dependency of one of its entries.\<close>

lemma split_acc_pieces: "e \<in> set (split_acc sep cur s) \<Longrightarrow> sep \<notin> set cur \<Longrightarrow> sep \<notin> set e"
proof (induction s arbitrary: cur)
  case Nil
  then show ?case by simp
next
  case (Cons c s)
  show ?case
  proof (cases "c = sep")
    case True
    with Cons.prems have "e = rev cur \<or> e \<in> set (split_acc sep [] s)" by simp
    then show ?thesis
      using Cons.prems(2) Cons.IH [of "[]"] by auto
  next
    case False
    with Cons.prems show ?thesis
      using Cons.IH [of "c # cur"] by simp
  qed
qed

lemma split_pieces: "e \<in> set (split s sep) \<Longrightarrow> sep \<notin> set e"
  using split_acc_pieces [of e sep "[]" s] by (simp add: split_def)

lemma parse_blueprint_refs_by_entry:
  "parse_blueprint_refs s = concat (map parse_blueprint_refs (split s (CHR '';'')))"
proof -
  have "concat (map parse_blueprint_refs ds) =
      List.map_filter (dependency_of_entry amended_items) (map strip ds)"
    if "\<forall>e\<in>set ds. CHR '';'' \<notin> set e" for ds
    using that
    by (induction ds)
      (simp_all add: parse_blueprint_refs_def split_no_sep refs_loop_spec map_filter_simps
        del: refs_loop.simps split: option.split)
  then show ?thesis
    by (simp add: parse_blueprint_refs_def refs_loop_spec split_pieces)
qed

lemma items_BlueprintReference [simp]: "items (BlueprintReference p xs) = xs"
  by (simp add: BlueprintReference_def)

text \<open>
  C10.  A qualifying entry with both \<open>[\<close> and \<open>]\<close> never has an empty item list, since
  splitting the bracket body at the commas gives at least one piece: a qualifying entry
  (one piece of the line between semicolons) gives exactly one Dependency, and its item
  list is empty exactly when the entry does not contain both brackets.  The entry \<open>.m[]\<close>
  has the single empty string as its only item.
\<close>

theorem bracket_items_never_empty:
  assumes "CHR '';'' \<notin> set e" and "strip e \<noteq> []"
    and "startswith (strip e) ''.'' \<or> startswith (strip e) ''@''"
  shows "(\<exists>r. parse_blueprint_refs e = [r]
            \<and> (items r = [] \<longleftrightarrow> \<not> (CHR ''['' \<in> set (strip e) \<and> CHR '']'' \<in> set (strip e))))
         \<and> parse_blueprint_refs ''.m[]'' = [\<lparr>module_path = ''.m'', items = [[]]\<rparr>]"
proof
  have "parse_blueprint_refs e = refs_loop [e] []"
    using assms(1) by (simp add: parse_blueprint_refs_def split_no_sep)
  then show "\<exists>r. parse_blueprint_refs e = [r]
            \<and> (items r = [] \<longleftrightarrow> \<not> (CHR ''['' \<in> set (strip e) \<and> CHR '']'' \<in> set (strip e)))"
    using assms(2,3) by (auto simp: Let_def split_not_Nil)
  show "parse_blueprint_refs ''.m[]'' = [\<lparr>module_path = ''.m'', items = [[]]\<rparr>]"
    by (simp add: parser_defs str_defs char_defs)
qed

theorem bracket_items_never_empty_witness:
  "\<exists>r. parse_blueprint_refs ''.a[x, y]'' = [r] \<and> items r \<noteq> []"
  using bracket_items_never_empty [of "''.a[x, y]''"] by (simp add: str_defs char_defs)

subsection \<open>The class example\<close>

text \<open>
  C8.  The lines \<open>Foo(Base):\<close> and \<open>- bar(x: int) -> str  # greeting\<close> are classified as
  one class \<open>Foo\<close> with base class \<open>Base\<close> and the single member \<open>bar\<close> with parameter list
  \<open>x: int\<close>, return type \<open>str\<close> and comment \<open>greeting\<close>; the member parser alone returns
  that member for the text after the dash; and a document with these two lines has this
  class as its only component.
\<close>

theorem class_with_method_and_comment:
  "parse_component [''Foo(Base):'', ''- bar(x: int) -> str  # greeting''] 0 =
     Inr (Some \<lparr>ctype = ''class'', name = ''Foo'', base_class = Some ''Base'',
       methods = [\<lparr>m_name = ''bar'', params = ''x: int'', return_type = Some ''str'',
         comment = Some ''greeting'', decorators = [], is_async = False\<rparr>],
       properties = Map.empty, cvalue = None, docstring = None\<rparr>)
   \<and> parse_method ''bar(x: int) -> str  # greeting'' =
       Some \<lparr>m_name = ''bar'', params = ''x: int'', return_type = Some ''str'',
         comment = Some ''greeting'', decorators = [], is_async = False\<rparr>
   \<and> (\<exists>bp. parse_content ''#m\<newline>d\<newline>Foo(Base):\<newline>- bar(x: int) -> str  # greeting'' = Inr bp
       \<and> components bp =
         [\<lparr>ctype = ''class'', name = ''Foo'', base_class = Some ''Base'',
           methods = [\<lparr>m_name = ''bar'', params = ''x: int'', return_type = Some ''str'',
             comment = Some ''greeting'', decorators = [], is_async = False\<rparr>],
           properties = Map.empty, cvalue = None, docstring = None\<rparr>])"
  by (simp add: parser_defs str_defs re_defs char_defs)


subsection \<open>The header and the driver\<close>

lemma assignment_rule_error: "assignment_rule line = Inl e \<Longrightarrow> e = IndexError"
  by (auto simp: assignment_rule_def Let_def split: if_splits list.splits)

lemma parse_component_error: "parse_component lines i = Inl e \<Longrightarrow> e = IndexError"
  by (auto simp: parse_component_def Let_def assignment_rule_error
      split: if_splits sum.splits option.splits)

lemma driver_step_error: "driver_step lines i bp = Inl e \<Longrightarrow> e = IndexError"
  by (auto simp: driver_step_def Let_def parse_component_error
      split: if_splits sum.splits option.splits)

lemma driver_step_header:
  "driver_step lines i bp = Inr (i', bp') \<Longrightarrow>
     module_name bp' = module_name bp \<and> description bp' = description bp"
  by (auto simp: driver_step_def Let_def split: if_splits sum.splits option.splits)

lemma parse_loop_error: "parse_loop lines i bp = Inl e \<Longrightarrow> e = IndexError"
proof (induction lines i bp rule: parse_loop.induct)
  case (1 lines i bp)
  show ?case
  proof (cases "i < length lines")
    case True
    show ?thesis
    proof (cases "driver_step lines i bp")
      case (Inl e')
      with True "1.prems" show ?thesis
        by (simp add: parse_loop.simps [of lines i bp] driver_step_error)
    next
      case (Inr s)
      obtain i' bp' where s: "s = (i', bp')" by (cases s)
      from True Inr s "1.prems" have "parse_loop lines i' bp' = Inl e"
        by (simp add: parse_loop.simps [of lines i bp])
      with "1.IH" True Inr s show ?thesis by simp
    qed
  next
    case False
    with "1.prems" show ?thesis
      by (simp add: parse_loop.simps [of lines i bp])
  qed
qed

text \<open>The header check and the empty name are the only ways in which the parse can
  fail.\<close>

lemma parse_content_errors:
  assumes "parse_content content = Inl e"
  shows "e = ValueError ''Blueprint must start with # module.name'' \<or> e = IndexError"
  using assms
  by (auto simp: parse_content_def Let_def split: if_splits dest: parse_loop_error)

lemma parse_loop_header:
  "parse_loop lines i bp = Inr bp' \<Longrightarrow>
     module_name bp' = module_name bp \<and> description bp' = description bp"
proof (induction lines i bp rule: parse_loop.induct)
  case (1 lines i bp)
  show ?case
  proof (cases "i < length lines")
    case True
    show ?thesis
    proof (cases "driver_step lines i bp")
      case (Inl e')
      with True "1.prems" show ?thesis
        by (simp add: parse_loop.simps [of lines i bp])
    next
      case (Inr s)
      obtain j bp1 where s: "s = (j, bp1)" by (cases s)
      from True Inr s "1.prems" have "parse_loop lines j bp1 = Inr bp'"
        by (simp add: parse_loop.simps [of lines i bp])
      with "1.IH" True Inr s have "module_name bp' = module_name bp1 \<and> description bp' = description bp1"
        by simp
      with driver_step_header [of lines i bp j bp1] Inr s show ?thesis by simp
    qed
  next
    case False
    with "1.prems" show ?thesis
      by (simp add: parse_loop.simps [of lines i bp])
  qed
qed

text \<open>
  C2.  As stated (the structural error is raised exactly when the first line of the
  input does not start with \<open>#\<close>) the claim fails: \<open>parse_content\<close> trims the whole
  input first, so an input such as \<open> #m\<close>, whose first line starts with a blank, is
  accepted.  What holds: with \<open>lines\<close> the lines of the trimmed input, the parse ends with
  the \<open>ValueError\<close> of the header check exactly when the first of them does not start with
  \<open>#\<close>; when it does, no \<open>ValueError\<close> is raised, and a Document that is returned has
  as module name that line with the \<open>#\<close> characters at both ends and then the surrounding
  whitespace removed, and as description the trimmed second line, or the empty string
  when there is none.
\<close>

theorem header_requirement:
  assumes "lines = split (strip content) newline"
  shows "(\<not> startswith (lines ! 0) ''#'' \<longrightarrow>
            parse_content content = Inl (ValueError ''Blueprint must start with # module.name''))
       \<and> (startswith (lines ! 0) ''#'' \<longrightarrow>
            (\<forall>msg. parse_content content \<noteq> Inl (ValueError msg))
          \<and> (\<forall>bp. parse_content content = Inr bp \<longrightarrow>
                module_name bp = strip (strip_chars ''#'' (lines ! 0))
              \<and> description bp = (if 1 < length lines then strip (lines ! 1) else [])))"
proof (intro conjI impI allI)
  assume "\<not> startswith (lines ! 0) ''#''"
  then show "parse_content content = Inl (ValueError ''Blueprint must start with # module.name'')"
    by (simp add: parse_content_def Let_def assms)
next
  fix msg
  assume "startswith (lines ! 0) ''#''"
  show "parse_content content \<noteq> Inl (ValueError msg)"
  proof
    assume "parse_content content = Inl (ValueError msg)"
    then have "\<exists>bp0. parse_loop lines 2 bp0 = Inl (ValueError msg)"
      using \<open>startswith (lines ! 0) ''#''\<close>
      by (auto simp: parse_content_def Let_def assms split_not_Nil split: if_splits)
    then show False using parse_loop_error by blast
  qed
next
  fix bp
  assume h: "startswith (lines ! 0) ''#''" and ok: "parse_content content = Inr bp"
  then have "parse_loop lines 2 \<lparr>module_name = strip (strip_chars ''#'' (lines ! 0)),
       description = (if 1 < length lines then strip (lines ! 1) else []),
       blueprint_refs = [], components = [], notes = [], raw_content = content, file_path = None\<rparr> = Inr bp"
    by (simp add: parse_content_def Let_def assms split_not_Nil split: if_splits)
  from parse_loop_header [OF this]
  show "module_name bp = strip (strip_chars ''#'' (lines ! 0))"
    and "description bp = (if 1 < length lines then strip (lines ! 1) else [])"
    by simp_all
qed

theorem header_requirement_witness:
  "parse_content ''mod'' = Inl (ValueError ''Blueprint must start with # module.name'')
   \<and> (\<exists>bp. parse_content ''# mod\<newline> desc '' = Inr bp \<and> module_name bp = ''mod'' \<and> description bp = ''desc'')"
proof -
  have ok: "\<exists>bp. parse_content ''# mod\<newline> desc '' = Inr bp"
    by (simp add: parser_defs str_defs char_defs)
  show ?thesis
    using header_requirement [of "[''mod'']" "''mod''"]
      header_requirement [of "[''# mod'', '' desc'']" "''# mod\<newline> desc ''"] ok
    by (auto simp add: str_defs char_defs)
qed

text \<open>The input \<open> #m\<close>: its first line does not start with \<open>#\<close>, and it is parsed.\<close>

theorem header_requirement_counterexample:
  "\<not> startswith (split '' #m'' newline ! 0) ''#'' \<and> (\<exists>bp. parse_content '' #m'' = Inr bp)"
  by (simp add: parser_defs str_defs char_defs)

lemma in_dropWhile: "c \<in> set s \<Longrightarrow> \<not> P c \<Longrightarrow> c \<in> set (dropWhile P s)"
  by (induction s) auto

lemma in_strip_with: "c \<in> set s \<Longrightarrow> \<not> P c \<Longrightarrow> c \<in> set (strip_with P s)"
  by (simp add: strip_with_def in_dropWhile)

text \<open>
  C4.  As stated (the module name of a returned Document is never empty) the claim
  fails: the header check only asks for a leading \<open>#\<close>, and the input \<open>#\<close> gives a
  Document with the empty module name.  What holds: the module name of a returned
  Document is not empty whenever the first line of the trimmed input has a character
  that is neither \<open>#\<close> nor whitespace.
\<close>

theorem module_name_nonempty:
  assumes "parse_content content = Inr bp"
    and "c \<in> set (split (strip content) newline ! 0)" and "c \<noteq> CHR ''#''" and "\<not> isspace c"
  shows "module_name bp \<noteq> []"
proof -
  define lines where "lines = split (strip content) newline"
  from assms(1) have "parse_loop lines 2 \<lparr>module_name = strip (strip_chars ''#'' (lines ! 0)),
       description = (if 1 < length lines then strip (lines ! 1) else []),
       blueprint_refs = [], components = [], notes = [], raw_content = content, file_path = None\<rparr> = Inr bp"
    by (simp add: parse_content_def Let_def lines_def split: if_splits)
  from parse_loop_header [OF this]
  have "module_name bp = strip (strip_chars ''#'' (lines ! 0))" by simp
  moreover have "c \<in> set (strip_chars ''#'' (lines ! 0))"
    unfolding strip_chars_def using assms(2,3) by (intro in_strip_with) (simp_all add: lines_def)
  then have "c \<in> set (strip (strip_chars ''#'' (lines ! 0)))"
    unfolding strip_def using assms(4) by (rule in_strip_with)
  ultimately show ?thesis by auto
qed

theorem module_name_nonempty_witness:
  "\<exists>bp. parse_content ''# mod\<newline>desc'' = Inr bp \<and> module_name bp \<noteq> []"
proof -
  obtain bp where ok: "parse_content ''# mod\<newline>desc'' = Inr bp"
    by (simp add: parser_defs str_defs char_defs)
  have "module_name bp \<noteq> []"
    by (rule module_name_nonempty [OF ok, of "CHR ''m''"]) (simp_all add: str_defs char_defs)
  with ok show ?thesis by blast
qed

text \<open>The input \<open>#\<close> is parsed, and its module name is empty.\<close>

theorem module_name_nonempty_counterexample:
  "\<exists>bp. parse_content ''#'' = Inr bp \<and> module_name bp = []"
  by (simp add: parser_defs str_defs char_defs)

subsection \<open>More than one dependency line\<close>

lemma filter_drop_skip:
  assumes "i \<le> k" and "\<forall>j. i \<le> j \<and> j < k \<and> j < length xs \<longrightarrow> \<not> P (xs ! j)"
  shows "filter P (drop i xs) = filter P (drop k xs)"
  using assms
proof (induction rule: inc_induct)
  case base
  show ?case by simp
next
  case (step n)
  show ?case
  proof (cases "n < length xs")
    case True
    then have "drop n xs = xs ! n # drop (Suc n) xs"
      by (simp add: Cons_nth_drop_Suc)
    moreover have "\<not> P (xs ! n)" using step.prems step.hyps True by simp
    ultimately have "filter P (drop n xs) = filter P (drop (Suc n) xs)" by simp
    also have "\<dots> = filter P (drop k xs)"
      using step.prems by (intro step.IH) simp
    finally show ?thesis .
  next
    case False
    with step.hyps show ?thesis by simp
  qed
qed

lemma find_end_loop_no_deps:
  "i \<le> j \<Longrightarrow> int j \<le> find_end_loop lines i \<Longrightarrow> j < length lines \<Longrightarrow>
     \<not> startswith (strip (lines ! j)) ''deps:''"
proof (induction lines i rule: find_end_loop.induct)
  case (1 lines i)
  from "1.prems" have i: "i < length lines" by simp
  let ?l = "strip (lines ! i)"
  show ?case
  proof (cases "?l = [] \<or> startswith ?l ''\"\"\"''")
    case blank: True
    then have rec: "find_end_loop lines i = find_end_loop lines (i + 1)"
      using i by (subst find_end_loop.simps) (simp add: Let_def)
    show ?thesis
    proof (cases "j = i")
      case True
      with blank show ?thesis
        by (cases "strip (lines ! i)") (auto simp: startswith_def)
    next
      case False
      with "1.prems" rec "1.IH"(1) [OF i refl blank] show ?thesis by simp
    qed
  next
    case False
    show ?thesis
    proof (cases "startswith ?l ''deps:'' \<or> startswith ?l ''notes:'' \<or> startswith ?l ''#''
        \<or> looks_like_new_component ?l")
      case True
      with False i have "find_end_loop lines i = int i - 1"
        by (subst find_end_loop.simps) (auto simp add: Let_def)
      with "1.prems" show ?thesis by simp
    next
      case nostop: False
      with False i have rec: "find_end_loop lines i = find_end_loop lines (i + 1)"
        by (subst find_end_loop.simps) (simp add: Let_def)
      show ?thesis
      proof (cases "j = i")
        case True
        with nostop show ?thesis by simp
      next
        case ne: False
        from nostop have a: "\<not> (startswith ?l ''deps:'' \<or> startswith ?l ''notes:'' \<or> startswith ?l ''#'')"
          and b: "\<not> looks_like_new_component ?l" by auto
        from ne "1.prems" rec "1.IH"(2) [OF i refl False a b] show ?thesis by simp
      qed
    qed
  qed
qed


lemma driver_step_refs:
  assumes "driver_step lines i bp = Inr (i', bp')" and "i < length lines"
  shows "blueprint_refs bp' =
      (if startswith (strip (lines ! i)) ''deps:''
       then parse_blueprint_refs (strip (drop 5 (strip (lines ! i)))) else blueprint_refs bp)"
    and "\<forall>j. Suc i \<le> j \<and> j < i' \<and> j < length lines \<longrightarrow> \<not> startswith (strip (lines ! j)) ''deps:''"
proof -
  show "blueprint_refs bp' =
      (if startswith (strip (lines ! i)) ''deps:''
       then parse_blueprint_refs (strip (drop 5 (strip (lines ! i)))) else blueprint_refs bp)"
    using assms(1) by (auto simp: driver_step_def Let_def split: if_splits sum.splits option.splits)
  show "\<forall>j. Suc i \<le> j \<and> j < i' \<and> j < length lines \<longrightarrow> \<not> startswith (strip (lines ! j)) ''deps:''"
  proof (intro allI impI)
    fix j
    assume j: "Suc i \<le> j \<and> j < i' \<and> j < length lines"
    then have "i' \<noteq> i + 1" by simp
    with assms(1) have "i' = nat (find_component_end lines i + 1)"
      by (auto simp: driver_step_def Let_def split: if_splits sum.splits option.splits)
    with j have "int j \<le> find_end_loop lines (i + 1)"
      unfolding find_component_end_def by linarith
    with j show "\<not> startswith (strip (lines ! j)) ''deps:''"
      by (intro find_end_loop_no_deps [of "i + 1" j lines]) simp_all
  qed
qed

lemma parse_loop_refs:
  "parse_loop lines i bp = Inr bp' \<Longrightarrow>
     blueprint_refs bp' =
       (let ds = filter (\<lambda>l. startswith (strip l) ''deps:'') (drop i lines)
        in if ds = [] then blueprint_refs bp
           else parse_blueprint_refs (strip (drop 5 (strip (last ds)))))"
proof (induction lines i bp rule: parse_loop.induct)
  case (1 lines i bp)
  let ?P = "\<lambda>l. startswith (strip l) ''deps:''"
  show ?case
  proof (cases "i < length lines")
    case True
    show ?thesis
    proof (cases "driver_step lines i bp")
      case (Inl e')
      with True "1.prems" show ?thesis
        by (simp add: parse_loop.simps [of lines i bp])
    next
      case (Inr s)
      obtain k bp1 where s: "s = (k, bp1)" by (cases s)
      from True Inr s "1.prems" have run: "parse_loop lines k bp1 = Inr bp'"
        by (simp add: parse_loop.simps [of lines i bp])
      have step: "driver_step lines i bp = Inr (k, bp1)" using Inr s by simp
      have ik: "Suc i \<le> k" using driver_step_advances [OF step True] by simp
      have skip: "filter ?P (drop (Suc i) lines) = filter ?P (drop k lines)"
        using ik driver_step_refs(2) [OF step True] by (intro filter_drop_skip) auto
      have here: "drop i lines = lines ! i # drop (Suc i) lines"
        using True by (simp add: Cons_nth_drop_Suc)
      from "1.IH" [OF True Inr s [symmetric] run]
      have "blueprint_refs bp' =
          (let ds = filter ?P (drop k lines)
           in if ds = [] then blueprint_refs bp1
              else parse_blueprint_refs (strip (drop 5 (strip (last ds)))))" .
      then show ?thesis
        unfolding here using skip driver_step_refs(1) [OF step True]
        by (simp add: Let_def)
    qed
  next
    case False
    with "1.prems" show ?thesis
      by (simp add: parse_loop.simps [of lines i bp])
  qed
qed

text \<open>
  C3.  As stated (the Dependencies of all \<open>deps:\<close> lines are kept, in order) the claim
  fails: the driver assigns the result of each \<open>deps:\<close> line to \<open>blueprint_refs\<close>, so a
  later line replaces what an earlier one gave.  What holds: the dependency sequence of a
  returned Document is what the dependency-line parser gives for the last \<open>deps:\<close> line
  (among the lines from index 2 on, in the order of the Dependencies of that line), and
  it is empty when there is no such line.
\<close>

theorem last_deps_line_wins:
  assumes "parse_content content = Inr bp"
  shows "blueprint_refs bp =
     (if deps_lines (split (strip content) newline) = [] then []
      else parse_blueprint_refs
             (strip (drop 5 (strip (last (deps_lines (split (strip content) newline)))))))"
proof -
  define lines where "lines = split (strip content) newline"
  from assms obtain bp0 where run: "parse_loop lines 2 bp0 = Inr bp" and "blueprint_refs bp0 = []"
    by (auto simp: parse_content_def Let_def lines_def split: if_splits)
  from parse_loop_refs [OF run] this(2) show ?thesis
    by (simp add: Let_def deps_lines_def lines_def)
qed

theorem last_deps_line_wins_witness:
  "\<exists>bp. parse_content ''#m\<newline>d\<newline>deps: .a[x]\<newline>Foo = int\<newline>deps: .b; @c'' = Inr bp
     \<and> blueprint_refs bp = [\<lparr>module_path = ''.b'', items = []\<rparr>, \<lparr>module_path = ''c'', items = []\<rparr>]"
proof -
  obtain bp where ok: "parse_content ''#m\<newline>d\<newline>deps: .a[x]\<newline>Foo = int\<newline>deps: .b; @c'' = Inr bp"
    by (simp add: parser_defs str_defs char_defs)
  from last_deps_line_wins [OF ok] ok show ?thesis
    by (simp add: deps_lines_def parse_blueprint_refs_def BlueprintReference_def str_defs char_defs)
qed

text \<open>Two \<open>deps:\<close> lines: the Dependency of the first one is recognised by the
  dependency-line parser and is not in the Document.\<close>

theorem deps_lines_accumulate_counterexample:
  "\<exists>bp. parse_content ''#m\<newline>d\<newline>deps: .a\<newline>deps: .b'' = Inr bp
     \<and> \<lparr>module_path = ''.a'', items = []\<rparr> \<in> set (parse_blueprint_refs ''.a'')
     \<and> \<lparr>module_path = ''.a'', items = []\<rparr> \<notin> set (blueprint_refs bp)"
  by (simp add: parser_defs str_defs char_defs)

subsection \<open>The span of a class\<close>

lemma class_members_continue:
  assumes "i < length lines" and "body_line (lines ! i)"
  shows "\<exists>decs1 ms1. class_members lines i decs ms = class_members lines (Suc i) decs1 ms1"
  using assms
  by (subst class_members.simps) (auto simp: body_line_def Let_def split: option.splits)

lemma class_members_stop:
  assumes "\<not> (i < length lines \<and> body_line (lines ! i))"
  shows "class_members lines i decs ms = (i, ms)"
  using assms by (subst class_members.simps) (auto simp: body_line_def)

lemma class_members_range:
  "class_members lines i decs ms = (e, ms') \<Longrightarrow>
     i \<le> e \<and> (i \<le> length lines \<longrightarrow> e \<le> length lines)
     \<and> (\<forall>k. i \<le> k \<and> k < e \<longrightarrow> body_line (lines ! k))"
proof (induction "length lines - i" arbitrary: i decs ms)
  case 0
  then have "class_members lines i decs ms = (i, ms)"
    by (intro class_members_stop) simp
  with "0.prems" show ?case by auto
next
  case (Suc n)
  show ?case
  proof (cases "body_line (lines ! i)")
    case True
    from Suc.hyps(2) have i: "i < length lines" by simp
    from class_members_continue [OF i True] obtain decs1 ms1
      where "class_members lines i decs ms = class_members lines (Suc i) decs1 ms1" by blast
    with Suc.prems have rec: "class_members lines (Suc i) decs1 ms1 = (e, ms')" by simp
    have "n = length lines - Suc i" using Suc.hyps(2) by simp
    from Suc.hyps(1) [OF this rec] i True show ?thesis
      by (auto simp: le_Suc_eq less_Suc_eq_le dest: le_neq_implies_less)
  next
    case False
    then have "class_members lines i decs ms = (i, ms)"
      by (intro class_members_stop) simp
    with Suc.prems show ?thesis by auto
  qed
qed

lemma body_line_no_stop:
  assumes "body_line l" and "strip l \<noteq> []"
  shows "\<not> startswith (strip l) ''\"\"\"''" and "\<not> startswith (strip l) ''deps:''"
    and "\<not> startswith (strip l) ''notes:''" and "\<not> startswith (strip l) ''#''"
    and "\<not> looks_like_new_component (strip l)"
  using assms
  by (cases "strip l"; auto simp: body_line_def startswith_def looks_like_new_component_def)+

lemma find_end_loop_body:
  assumes "i \<le> e" and "e \<le> length lines" and "\<forall>k. i \<le> k \<and> k < e \<longrightarrow> body_line (lines ! k)"
  shows "int e - 1 \<le> find_end_loop lines i"
  using assms
proof (induction rule: inc_induct)
  case base
  then show ?case by (intro find_end_loop_lower)
next
  case (step n)
  then have n: "n < length lines" and body: "body_line (lines ! n)" by simp_all
  have "find_end_loop lines n = find_end_loop lines (n + 1)"
  proof (cases "strip (lines ! n) = []")
    case True
    with n show ?thesis by (subst find_end_loop.simps) (simp add: Let_def)
  next
    case False
    from body_line_no_stop [OF body False] n False show ?thesis
      by (subst find_end_loop.simps) (simp add: Let_def)
  qed
  with step show ?case by simp
qed

lemma cursor_moves_forward:
  "cursor_moves lines s t \<Longrightarrow> fst s \<le> fst t"
proof (induction rule: cursor_moves.induct)
  case (stay s)
  show ?case by simp
next
  case (step s i bp s')
  obtain j bp' where "s' = (j, bp')" by (cases s')
  with step driver_step_advances [of lines i bp j bp'] show ?case by simp
qed

lemma parse_component_class:
  assumes "parse_component lines i = Inr (Some c)" and "ctype c = ''class''"
  shows "methods c = snd (class_members lines (i + 1) [] [])"
  using assms
  by (auto simp: parse_component_def assignment_rule_def constant_rule_def class_rule_def
      function_rule_def Component_def Let_def
      split: if_splits sum.splits option.splits list.splits)

text \<open>
  C9.  Let the driver, at cursor \<open>i\<close>, append a class component \<open>c\<close>.  Then \<open>c\<close> is what
  the classifier returns at \<open>i\<close>, its members are those collected by the member loop
  started at \<open>i + 1\<close>, and with \<open>e\<close> the index at which that loop stopped (the body being
  the lines \<open>i + 1\<close> to \<open>e - 1\<close>): the index returned by the span resolver is at least
  \<open>e - 1\<close>, the index of the last body line; the cursor moves to one past the returned
  index; and every cursor position from then on is at least \<open>e\<close>.  The driver calls the
  classifier only at its cursor, so no body line is classified again.
\<close>

theorem class_body_within_span:
  assumes "i < length lines" and "driver_step lines i bp = Inr (i', bp')"
    and "components bp' = components bp @ [c]" and "ctype c = ''class''"
  shows "parse_component lines i = Inr (Some c)
       \<and> methods c = snd (class_members lines (i + 1) [] [])
       \<and> int (fst (class_members lines (i + 1) [] [])) - 1 \<le> find_component_end lines i
       \<and> i' = nat (find_component_end lines i + 1)
       \<and> (\<forall>j bp''. cursor_moves lines (i', bp') (j, bp'') \<longrightarrow>
             fst (class_members lines (i + 1) [] []) \<le> j)"
proof -
  from assms(2,3) have pc: "parse_component lines i = Inr (Some c)"
    and i': "i' = nat (find_component_end lines i + 1)"
    by (auto simp: driver_step_def Let_def split: if_splits sum.splits option.splits)
  obtain e ms where cm: "class_members lines (i + 1) [] [] = (e, ms)"
    by (cases "class_members lines (i + 1) [] []")
  from class_members_range [OF cm] assms(1)
  have "int e - 1 \<le> find_end_loop lines (i + 1)"
    by (intro find_end_loop_body) auto
  then have span: "int e - 1 \<le> find_component_end lines i"
    by (simp add: find_component_end_def)
  have "e \<le> j" if "cursor_moves lines (i', bp') (j, bp'')" for j bp''
    using cursor_moves_forward [OF that] span i' by simp
  with pc parse_component_class [OF pc assms(4)] span i' cm show ?thesis
    by simp
qed

theorem class_body_within_span_witness:
  "int (fst (class_members [''#m'', ''d'', ''Foo:'', ''- x: int'', [], ''@dec'', ''- f()'', ''Bar = int''] 3 [] [])) - 1
     \<le> find_component_end [''#m'', ''d'', ''Foo:'', ''- x: int'', [], ''@dec'', ''- f()'', ''Bar = int''] 2"
proof -
  let ?lines = "[''#m'', ''d'', ''Foo:'', ''- x: int'', [], ''@dec'', ''- f()'', ''Bar = int'']"
  let ?bp = "\<lparr>module_name = ''m'', description = ''d'', blueprint_refs = [], components = [],
     notes = [], raw_content = [], file_path = None\<rparr>"
  obtain i' bp' c where step: "driver_step ?lines 2 ?bp = Inr (i', bp')"
    and comps: "components bp' = components ?bp @ [c]" and cls: "ctype c = ''class''"
    by (simp add: parser_defs str_defs re_defs char_defs)
  have "2 < length ?lines" by simp
  from class_body_within_span [OF this step comps cls] show ?thesis
    by simp
qed


subsection \<open>The matcher\<close>







lemma greedy_some:
  assumes "greedy P pos s k = Some r"
  shows "\<exists>j \<le> length (takeWhile P s). k (pos + j) (drop j s) = Some r"
  using assms
proof (induction s arbitrary: pos)
  case Nil
  then show ?case by simp
next
  case (Cons c s)
  show ?case
  proof (cases "P c \<and> greedy P (Suc pos) s k = Some r")
    case True
    with Cons.IH [of "Suc pos"] obtain j where "j \<le> length (takeWhile P s)"
      and "k (Suc pos + j) (drop j s) = Some r" by blast
    with True show ?thesis
      by (intro exI [where x = "Suc j"]) simp
  next
    case False
    with Cons.prems have "k pos (c # s) = Some r"
      by (auto split: if_splits option.splits)
    then show ?thesis
      by (intro exI [where x = 0]) simp
  qed
qed







text \<open>The groups that the parser reads with \<open>the\<close> are set in every match.\<close>

lemma lazy_some:
  "lazy P pos s k = Some r \<Longrightarrow> \<exists>pos' s'. k pos' s' = Some r"
  by (induction s arbitrary: pos) (auto split: option.splits if_splits)

lemma greedy_some_ex:
  "greedy P pos s k = Some r \<Longrightarrow> \<exists>pos' s'. k pos' s' = Some r"
  using greedy_some by blast

lemma rmatch_groups:
  "rmatch r pos s cs k = Some res \<Longrightarrow>
     \<exists>pos' s' cs'. k pos' s' cs' = Some res
       \<and> (\<forall>n. n \<in> certain_groups r \<or> cs n \<noteq> None \<longrightarrow> cs' n \<noteq> None)"
proof (induction r arbitrary: pos s cs k)
  case Bol
  then show ?case by (auto split: if_splits)
next
  case Eol
  then show ?case by (auto split: if_splits)
next
  case (Lit p)
  then show ?case by (auto split: if_splits)
next
  case (One P)
  then show ?case by (auto split: list.splits if_splits)
next
  case (Star P)
  then show ?case by (auto dest!: greedy_some_ex)
next
  case (Plus P)
  then show ?case by (auto split: list.splits if_splits dest!: greedy_some_ex)
next
  case (LazyStar P)
  then show ?case by (auto dest!: lazy_some)
next
  case (LazyPlus P)
  then show ?case by (auto split: list.splits if_splits dest!: lazy_some)
next
  case (Opt r)
  show ?case
  proof (cases "rmatch r pos s cs k")
    case None
    with Opt.prems show ?thesis by auto
  next
    case (Some a)
    with Opt.prems have "rmatch r pos s cs k = Some res" by simp
    from Opt.IH [OF this] obtain pos' s' cs' where "k pos' s' cs' = Some res"
      and "\<forall>n. n \<in> certain_groups r \<or> cs n \<noteq> None \<longrightarrow> cs' n \<noteq> None"
      by blast
    then show ?thesis by (intro exI [of _ pos'] exI [of _ s'] exI [of _ cs']) simp
  qed
next
  case (Group n r)
  from Group.prems
  have "rmatch r pos s cs (\<lambda>pos' s' cs'. k pos' s' (cs'(n \<mapsto> take (pos' - pos) s))) = Some res"
    by simp
  from Group.IH [OF this] obtain pos' s' cs' where
    k: "k pos' s' (cs'(n \<mapsto> take (pos' - pos) s)) = Some res"
    and keep: "\<forall>m. m \<in> certain_groups r \<or> cs m \<noteq> None \<longrightarrow> cs' m \<noteq> None"
    by blast
  from keep have "\<forall>m. m \<in> certain_groups (Group n r) \<or> cs m \<noteq> None
      \<longrightarrow> (cs'(n \<mapsto> take (pos' - pos) s)) m \<noteq> None"
    by auto
  with k show ?case by blast
next
  case (Seq a b)
  from Seq.prems
  have "rmatch a pos s cs (\<lambda>pos' s' cs'. rmatch b pos' s' cs' k) = Some res"
    by simp
  from Seq.IH(1) [OF this] obtain p1 s1 cs1 where
    b: "rmatch b p1 s1 cs1 k = Some res"
    and keep1: "\<forall>n. n \<in> certain_groups a \<or> cs n \<noteq> None \<longrightarrow> cs1 n \<noteq> None"
    by blast
  from Seq.IH(2) [OF b] obtain p2 s2 cs2 where
    k: "k p2 s2 cs2 = Some res"
    and keep2: "\<forall>n. n \<in> certain_groups b \<or> cs1 n \<noteq> None \<longrightarrow> cs2 n \<noteq> None"
    by blast
  from keep1 keep2 have "\<forall>n. n \<in> certain_groups (Seq a b) \<or> cs n \<noteq> None \<longrightarrow> cs2 n \<noteq> None"
    by auto
  with k show ?case by blast
qed

lemma re_match_groups:
  assumes "re_match r s = Some m" and "n \<in> certain_groups r"
  shows "m n \<noteq> None"
proof -
  from assms(1) have "rmatch r 0 s Map.empty (\<lambda>pos s' cs. Some cs) = Some m"
    by (simp add: re_match_def)
  from rmatch_groups [OF this] assms(2) show ?thesis by auto
qed

lemma groups_always_set:
  "re_match re_constant s = Some m \<Longrightarrow> m 1 \<noteq> None \<and> m 2 \<noteq> None"
  "re_match re_class s = Some m \<Longrightarrow> m 1 \<noteq> None"
  "re_match re_function s = Some m \<Longrightarrow> m 1 \<noteq> None \<and> m 2 \<noteq> None"
  "re_match re_method s = Some m \<Longrightarrow> m 1 \<noteq> None \<and> m 2 \<noteq> None"
  by (auto simp: re_constant_def re_class_def re_function_def re_method_def
      dest: re_match_groups)

subsection \<open>The assignment form\<close>

lemma char_of_eq: "(c = char_of (n::nat)) = (code c = n mod 256)"
  "(char_of (n::nat) = c) = (code c = n mod 256)"
proof -
  have "c = char_of n \<longleftrightarrow> (of_char c :: nat) = of_char (char_of n)"
    by (simp only: of_char_eq_iff)
  then show "(c = char_of n) = (code c = n mod 256)"
    by (simp add: code_def)
  then show "(char_of n = c) = (code c = n mod 256)"
    by auto
qed

lemma single_case: "isupper [c] = isupper_char c" "islower [c] = islower_char c"
  by (auto simp: isupper_def islower_def isupper_char_def islower_char_def between_def)

lemma upper_not_lower: "isupper_char c \<Longrightarrow> \<not> islower_char c"
  by (auto simp: isupper_char_def islower_char_def between_def)

lemma assignment_form:
  assumes "CHR ''='' \<in> set line" and "\<not> startswith line ''-''"
    and "nm = strip (takeWhile (\<lambda>c. c \<noteq> CHR ''='') line)"
    and "v = strip (drop 1 (dropWhile (\<lambda>c. c \<noteq> CHR ''='') line))"
    and "CHR '':'' \<notin> set nm" and "nm \<noteq> []"
  shows "assignment_rule line =
     (if (isupper_char (hd nm) \<and> (\<exists>c\<in>set nm. islower_char c)) \<or> contains (lower nm) ''type''
      then Inr (Some ((Component ''type_alias'' nm)\<lparr>cvalue := Some v\<rparr>))
      else if isupper nm \<and> CHR ''_'' \<in> set nm
      then Inr (Some ((Component ''constant'' nm)
             \<lparr>properties := [''type'' \<mapsto> ''auto''], cvalue := Some v\<rparr>))
      else Inr None)"
proof (cases "strip (takeWhile (\<lambda>c. c \<noteq> CHR ''='') line)")
  case Nil
  with assms(3,6) show ?thesis by simp
next
  case (Cons c t)
  with assms(1,2,5) show ?thesis
    unfolding assms(3,4)
    by (auto simp: assignment_rule_def split1_def Let_def single_case list_ex_iff
        isupper_def list_all_iff dest: upper_not_lower)
qed

text \<open>
  C6.  The claim: for a line of the assignment form, a name that starts with an
  upper-case character and has a lower-case one, or that contains \<open>type\<close>, gives a
  type alias (\<open>UserId = str\<close>); otherwise a name that is upper case and has an underscore
  gives a constant of declared type \<open>auto\<close> (\<open>ALL_CAPS = 5\<close>); otherwise the rule gives
  nothing and the later rules are tried.  The two examples are classified as the claim
  says, and \<open>assignment_form\<close> above shows the three cases for every line whose name is
  not empty.  For a line whose name is empty, such as \<open>= 5\<close>, the code does not fall
  through to the later rules: it reads \<open>name[0]\<close> and raises \<open>IndexError\<close>.
\<close>

theorem assignment_rule_empty_name_raises:
  "parse_component [''= 5''] 0 = Inl IndexError
   \<and> parse_component [''UserId = str''] 0 =
       Inr (Some \<lparr>ctype = ''type_alias'', name = ''UserId'', base_class = None, methods = [],
         properties = Map.empty, cvalue = Some ''str'', docstring = None\<rparr>)
   \<and> parse_component [''ALL_CAPS = 5''] 0 =
       Inr (Some \<lparr>ctype = ''constant'', name = ''ALL_CAPS'', base_class = None, methods = [],
         properties = [''type'' \<mapsto> ''auto''], cvalue = Some ''5'', docstring = None\<rparr>)"
  by (simp add: parser_defs str_defs re_defs char_defs char_of_eq rmatch.simps)

subsection \<open>The constant form\<close>

declare rmatch.simps(5,6) [simp del]


lemma not_space_eq [simp]: "\<not> isspace (CHR ''='')"
  by (simp add: char_defs)

lemma eq_not_newline [simp]: "CHR ''='' \<noteq> newline"
  by (simp add: newline_def)









lemma not_eq_class [simp]: "cls_not_eq c \<longleftrightarrow> c \<noteq> CHR ''=''"
  by (simp add: cls_not_eq_def)




















lemma name_not_punct [simp]: "\<not> cls_AZ (CHR '':'')" "\<not> cls_AZ09u (CHR '':'')"
  "\<not> cls_AZ (CHR ''='')" "\<not> cls_AZ09u (CHR ''='')"
  by (simp_all add: char_defs)








end
